theory Spec2Isabelle
  imports Complex_Main "HOL-Library.AList"
begin

section \<open>Python values used by the engine\<close>

text \<open>
  A Python \<^verbatim>\<open>str\<close> is modelled as a \<^typ>\<open>string\<close>; one \<^typ>\<open>char\<close> stands for one code
  point below 256. Exceptions are values of the type \<open>error\<close>; a function that can raise
  returns \<open>error + 'a\<close>, with \<open>Inl\<close> for the raised exception.
\<close>

datatype error =
    UserError string
  | MentatError string
  | Exception string
  | IndexError
  | ValueError
  | KeyError
  | FileNotFoundError

text \<open>\<^verbatim>\<open>s.startswith(p)\<close>.\<close>

fun startswith :: "string \<Rightarrow> string \<Rightarrow> bool" where
  "startswith s [] = True"
| "startswith [] (p # ps) = False"
| "startswith (c # cs) (p # ps) = (c = p \<and> startswith cs ps)"

text \<open>
  \<^verbatim>\<open>s.splitlines()\<close>: the line boundaries among the code points below 256 are
  LF, VT, FF, CR (CR LF counts once), FS, GS, RS and NEL; a trailing boundary opens no
  further line and the empty string has no line.
\<close>

definition is_linebreak :: "char \<Rightarrow> bool" where
  "is_linebreak c = (c \<in> set [CHR 0x0A, CHR 0x0B, CHR 0x0C, CHR 0x0D,
                               CHR 0x1C, CHR 0x1D, CHR 0x1E, CHR 0x85])"

fun splitlines_from :: "string \<Rightarrow> string \<Rightarrow> string list" where
  "splitlines_from cur [] = (if cur = [] then [] else [rev cur])"
| "splitlines_from cur [c] =
     (if is_linebreak c then [rev cur] else [rev (c # cur)])"
| "splitlines_from cur (c # d # cs) =
     (if c = CHR 0x0D \<and> d = CHR 0x0A then rev cur # splitlines_from [] cs
      else if is_linebreak c then rev cur # splitlines_from [] (d # cs)
      else splitlines_from (c # cur) (d # cs))"

definition splitlines :: "string \<Rightarrow> string list" where
  "splitlines s = splitlines_from [] s"

text \<open>\<^verbatim>\<open>s.split(sep)\<close> for a one-character separator: empty pieces are kept.\<close>

fun split_on :: "char \<Rightarrow> string \<Rightarrow> string list" where
  "split_on sep [] = [[]]"
| "split_on sep (c # cs) =
     (if c = sep then [] # split_on sep cs
      else (case split_on sep cs of
              [] \<Rightarrow> [[c]]
            | piece # pieces \<Rightarrow> (c # piece) # pieces))"

text \<open>
  \<^verbatim>\<open>int(s)\<close> in base 10: surrounding whitespace is stripped, one sign is allowed, and
  the digits may be grouped by single underscores. \<open>None\<close> stands for \<^verbatim>\<open>ValueError\<close>.
  (The interpreter's limit on the number of digits is not modelled.)
\<close>

definition is_space :: "char \<Rightarrow> bool" where
  "is_space c = (c \<in> set [CHR 0x09, CHR 0x0A, CHR 0x0B, CHR 0x0C, CHR 0x0D,
                          CHR 0x1C, CHR 0x1D, CHR 0x1E, CHR 0x1F, CHR '' '',
                          CHR 0x85, CHR 0xA0])"

definition strip :: "string \<Rightarrow> string" where
  "strip s = rev (dropWhile is_space (rev (dropWhile is_space s)))"

definition is_digit :: "char \<Rightarrow> bool" where
  "is_digit c = (c \<in> set ''0123456789'')"

definition digit_val :: "char \<Rightarrow> int" where
  "digit_val c = int (of_char c) - 48"

text \<open>
  \<open>digits_value acc prev s\<close> reads the digit groups; \<open>prev\<close> tells whether the previous
  character was a digit (an underscore is allowed only between two digits).
\<close>

fun digits_value :: "int \<Rightarrow> bool \<Rightarrow> string \<Rightarrow> int option" where
  "digits_value acc prev [] = (if prev then Some acc else None)"
| "digits_value acc prev (c # cs) =
     (if is_digit c then digits_value (acc * 10 + digit_val c) True cs
      else if c = CHR ''_'' \<and> prev then digits_value acc False cs
      else None)"

definition py_int :: "string \<Rightarrow> int option" where
  "py_int s =
     (case strip s of
        [] \<Rightarrow> None
      | c # cs \<Rightarrow>
          if c = CHR ''-'' then map_option uminus (digits_value 0 False cs)
          else if c = CHR ''+'' then digits_value 0 False cs
          else digits_value 0 False (c # cs))"

text \<open>\<^verbatim>\<open>f"{n}"\<close> for an integer: its decimal digits, with a minus sign below zero.\<close>

definition digit_char :: "nat \<Rightarrow> char" where
  "digit_char d = ''0123456789'' ! d"

function str_nat :: "nat \<Rightarrow> string" where
  "str_nat n = (if n < 10 then [digit_char n] else str_nat (n div 10) @ [digit_char (n mod 10)])"
  by pat_completeness auto
termination
  by (relation "measure id") auto

declare str_nat.simps [simp del]

definition str_int :: "int \<Rightarrow> string" where
  "str_int i = (if i < 0 then CHR ''-'' # str_nat (nat (- i)) else str_nat (nat i))"

text \<open>
  Slices \<^verbatim>\<open>xs[a:b]\<close> and \<^verbatim>\<open>xs[a:]\<close> with integer bounds: a negative bound counts from the
  end, and every bound is clamped to the list.
\<close>

definition slice_bound :: "nat \<Rightarrow> int \<Rightarrow> nat" where
  "slice_bound n i = (if i < 0 then nat (int n + i) else min (nat i) n)"

definition py_slice :: "'a list \<Rightarrow> int \<Rightarrow> int \<Rightarrow> 'a list" where
  "py_slice xs a b =
     (let lo = slice_bound (length xs) a; hi = slice_bound (length xs) b
      in take (hi - lo) (drop lo xs))"

definition py_slice_from :: "'a list \<Rightarrow> int \<Rightarrow> 'a list" where
  "py_slice_from xs a = drop (slice_bound (length xs) a) xs"

section \<open>Diff annotations (\<^verbatim>\<open>mentat/diff_context.py\<close>)\<close>

record DiffAnnotation =
  start :: int
  message :: "string list"


subsection \<open>\<^verbatim>\<open>_parse_diff\<close>\<close>

text \<open>
  The new-file start of a hunk header (lines 39 to 44): the third space-separated piece,
  without its first character and cut at the first comma, read as an integer. A header
  with fewer than three pieces raises \<^verbatim>\<open>IndexError\<close>, an unreadable number
  \<^verbatim>\<open>ValueError\<close>.
\<close>

definition hunk_new_start :: "string \<Rightarrow> error + int" where
  "hunk_new_start line =
     (let pieces = split_on CHR '' '' line in
      if length pieces < 3 then Inl IndexError
      else
        let new_index = pieces ! 2;
            new_start = (if CHR '','' \<in> set new_index
                         then hd (split_on CHR '','' (drop 1 new_index))
                         else drop 1 new_index)
        in (case py_int new_start of
              None \<Rightarrow> Inl ValueError
            | Some n \<Rightarrow> Inr n))"

text \<open>
  \<^verbatim>\<open>annotations\<close> with the pending \<^verbatim>\<open>active_annotation\<close> appended when there is one
  (lines 37-38 and 49-50; an annotation object is always truthy).
\<close>

definition flush :: "DiffAnnotation list \<Rightarrow> DiffAnnotation option \<Rightarrow> DiffAnnotation list" where
  "flush annotations active_annotation =
     (case active_annotation of
        None \<Rightarrow> annotations
      | Some a \<Rightarrow> annotations @ [a])"

text \<open>The loop of lines 33 to 48 over the lines after the header.\<close>

fun parse_lines ::
  "string list \<Rightarrow> DiffAnnotation list \<Rightarrow> DiffAnnotation option
     \<Rightarrow> error + (DiffAnnotation list \<times> DiffAnnotation option)" where
  "parse_lines [] annotations active_annotation = Inr (annotations, active_annotation)"
| "parse_lines (line # rest) annotations active_annotation =
     (if startswith line ''---'' \<or> startswith line ''+++'' \<or> startswith line ''//''
      then parse_lines rest annotations active_annotation
      else if startswith line ''@@'' then
        (case hunk_new_start line of
           Inl e \<Rightarrow> Inl e
         | Inr new_start \<Rightarrow>
             parse_lines rest (flush annotations active_annotation)
               (Some \<lparr>start = new_start, message = []\<rparr>))
      else if startswith line ''+'' \<or> startswith line ''-'' then
        (case active_annotation of
           None \<Rightarrow> Inl (UserError ''Invalid diff'')
         | Some a \<Rightarrow>
             parse_lines rest annotations (Some (a\<lparr>message := message a @ [line]\<rparr>)))
      else parse_lines rest annotations active_annotation)"

definition parse_diff :: "string \<Rightarrow> error + DiffAnnotation list" where
  "parse_diff diff =
     (case parse_lines (drop 4 (splitlines diff)) [] None of
        Inl e \<Rightarrow> Inl e
      | Inr (annotations, active_annotation) \<Rightarrow>
          Inr (sort_key start (flush annotations active_annotation)))"

subsection \<open>\<^verbatim>\<open>_annotate_file_message\<close>\<close>

text \<open>
  The inner loop (lines 71 to 83) over the message of one annotation. The state is
  \<^verbatim>\<open>active_index\<close>, \<^verbatim>\<open>i_minus\<close> and \<^verbatim>\<open>annotated_message\<close>; \<^verbatim>\<open>line[0]\<close> raises
  \<^verbatim>\<open>IndexError\<close> on an empty line, and a line with another sign is passed over.
\<close>

fun annotate_lines ::
  "int \<Rightarrow> string list \<Rightarrow> int \<Rightarrow> int option \<Rightarrow> string list \<Rightarrow> error + (int \<times> string list)" where
  "annotate_lines annotation_start [] active_index i_minus annotated_message =
     Inr (active_index, annotated_message)"
| "annotate_lines annotation_start (line # rest) active_index i_minus annotated_message =
     (case line of
        [] \<Rightarrow> Inl IndexError
      | sign # _ \<Rightarrow>
          if sign = CHR ''+'' then
            annotate_lines annotation_start rest (active_index + 1) None
              (annotated_message @ [str_int active_index @ '':'' @ line])
          else if sign = CHR ''-'' then
            (let i = (case i_minus of None \<Rightarrow> 0 | Some i \<Rightarrow> i) in
             annotate_lines annotation_start rest active_index (Some (i + 1))
               (annotated_message @ [str_int (annotation_start + i) @ '':'' @ line]))
          else annotate_lines annotation_start rest active_index i_minus annotated_message)"

text \<open>The outer loop (lines 61 to 83); \<^verbatim>\<open>code_message[0]\<close> raises on an empty listing.\<close>

fun annotate_loop ::
  "string list \<Rightarrow> DiffAnnotation list \<Rightarrow> int \<Rightarrow> string list \<Rightarrow> error + (int \<times> string list)" where
  "annotate_loop code_message [] active_index annotated_message =
     Inr (active_index, annotated_message)"
| "annotate_loop code_message (annotation # rest) active_index annotated_message =
     (let filled = (if active_index < start annotation
                    then annotated_message @ py_slice code_message active_index (start annotation)
                    else annotated_message)
      in if start annotation = 0 then
           (case code_message of
              [] \<Rightarrow> Inl IndexError
            | path_line # _ \<Rightarrow>
                (case annotate_lines (start annotation) (message annotation)
                        (start annotation + 1) None (filled @ [path_line]) of
                   Inl e \<Rightarrow> Inl e
                 | Inr (active_index', annotated_message') \<Rightarrow>
                     annotate_loop code_message rest active_index' annotated_message'))
         else
           (case annotate_lines (start annotation) (message annotation)
                   (start annotation) None filled of
              Inl e \<Rightarrow> Inl e
            | Inr (active_index', annotated_message') \<Rightarrow>
                annotate_loop code_message rest active_index' annotated_message'))"

definition annotate_file_message ::
  "string list \<Rightarrow> DiffAnnotation list \<Rightarrow> error + string list" where
  "annotate_file_message code_message annotations =
     (case annotate_loop code_message annotations 0 [] of
        Inl e \<Rightarrow> Inl e
      | Inr (active_index, annotated_message) \<Rightarrow>
          Inr (if active_index < int (length code_message)
               then annotated_message @ py_slice_from code_message active_index
               else annotated_message))"

text \<open>
  \<^verbatim>\<open>DiffContext.annotate_file_message\<close> (lines 128 to 137). The list \<^verbatim>\<open>self.files\<close> and
  the diff text returned by \<^verbatim>\<open>get_diff_for_file\<close> come from the version-control backend
  and are parameters here.
\<close>

definition DiffContext_annotate_file_message ::
  "string list \<Rightarrow> string \<Rightarrow> string list \<Rightarrow> error + string list" where
  "DiffContext_annotate_file_message files diff file_message =
     (if files = [] then Inr file_message
      else (case parse_diff diff of
              Inl e \<Rightarrow> Inl e
            | Inr annotations \<Rightarrow> annotate_file_message file_message annotations))"

section \<open>The change applicator (\<^verbatim>\<open>mentat/code_file_manager.py\<close>)\<close>

subsection \<open>Data\<close>

type_synonym path = string

datatype CodeChangeAction = Insert | Replace | Delete | CreateFile | DeleteFile | RenameFile

text \<open>
  Modelled from the spec: the class \<^verbatim>\<open>CodeChange\<close> of \<^verbatim>\<open>mentat/code_change.py\<close> is not
  among the source files. The record has the fields that the manager reads (the field
  \<^verbatim>\<open>file\<close> is written \<open>change_file\<close>). A line number is a rational: a replacement or a
  deletion carries whole numbers, an insertion a boundary between two lines (a half), and
  \<^verbatim>\<open>math.ceil\<close> is \<^term>\<open>ceiling\<close>.
\<close>

record CodeChange =
  action :: CodeChangeAction
  change_file :: path
  first_changed_line :: rat
  last_changed_line :: rat
  name :: path
  code_lines :: "string list"

text \<open>
  The state that the manager reads and writes: the files on disk (a path is identified
  with its form relative to \<^verbatim>\<open>git_root\<close>, directories are not modelled), the keys of
  \<^verbatim>\<open>code_context.files\<close>, the cache \<^verbatim>\<open>self.file_lines\<close>, the replies that the user
  will give, and the text logged or printed so far.
\<close>

record manager_state =
  disk :: "path \<rightharpoonup> string"
  context_files :: "path set"
  file_lines :: "path \<rightharpoonup> string list"
  answers :: "bool list"
  console :: "string list"

text \<open>
  The collaborators whose code is not among the source files are parameters: the order
  of \<^verbatim>\<open>sorted(changes, reverse=True)\<close> (it rests on the comparison of \<^verbatim>\<open>CodeChange\<close>),
  the two conflict resolvers (they may question the user, so they pass the state on) and
  \<^verbatim>\<open>CodeChange.apply\<close>.
\<close>

record collaborators =
  sorted_reverse :: "CodeChange list \<Rightarrow> CodeChange list"
  resolve_insertion_conflicts ::
    "CodeChange list \<Rightarrow> manager_state \<Rightarrow> CodeChange list \<times> manager_state"
  resolve_non_insertion_conflicts ::
    "CodeChange list \<Rightarrow> manager_state \<Rightarrow> CodeChange list \<times> manager_state"
  apply_change :: "CodeChange \<Rightarrow> string list \<Rightarrow> string list"

subsection \<open>Input and output\<close>

text \<open>\<^verbatim>\<open>logging\<close> and \<^verbatim>\<open>cprint\<close>: the text is appended to the console.\<close>

definition emit :: "string \<Rightarrow> manager_state \<Rightarrow> manager_state" where
  "emit text st = st\<lparr>console := console st @ [text]\<rparr>"

text \<open>
  Modelled from the spec: \<^verbatim>\<open>UserInputManager.ask_yes_no\<close> is not among the source files.
  It is a yes/no question with a stated default; the next scripted reply answers it, and
  when no reply is left the default stands.
\<close>

definition ask_yes_no :: "bool \<Rightarrow> manager_state \<Rightarrow> bool \<times> manager_state" where
  "ask_yes_no default_yes st =
     (case answers st of
        [] \<Rightarrow> (default_yes, st)
      | reply # later \<Rightarrow> (reply, st\<lparr>answers := later\<rparr>))"

text \<open>
  Reading in text mode translates CR LF and a lone CR to LF; \<^verbatim>\<open>_read_file\<close> (lines 35 to
  44, for a path) then splits at every LF. A missing file raises.
\<close>

fun universal_newlines :: "string \<Rightarrow> string" where
  "universal_newlines [] = []"
| "universal_newlines [c] = [if c = CHR 0x0D then CHR 0x0A else c]"
| "universal_newlines (c # d # cs) =
     (if c = CHR 0x0D \<and> d = CHR 0x0A then CHR 0x0A # universal_newlines cs
      else if c = CHR 0x0D then CHR 0x0A # universal_newlines (d # cs)
      else c # universal_newlines (d # cs))"

definition read_file :: "manager_state \<Rightarrow> path \<Rightarrow> error + string list" where
  "read_file st rel_path =
     (case disk st rel_path of
        None \<Rightarrow> Inl FileNotFoundError
      | Some text \<Rightarrow> Inr (split_on (CHR 0x0A) (universal_newlines text)))"

text \<open>\<^verbatim>\<open>"\n".join(lines)\<close> and the overwriting of a whole file.\<close>

fun join_lines :: "string list \<Rightarrow> string" where
  "join_lines [] = []"
| "join_lines [l] = l"
| "join_lines (l # m # ls) = l @ CHR 0x0A # join_lines (m # ls)"

definition write_file :: "path \<Rightarrow> string \<Rightarrow> manager_state \<Rightarrow> manager_state" where
  "write_file abs_path text st = st\<lparr>disk := (disk st)(abs_path \<mapsto> text)\<rparr>"

subsection \<open>Adding and deleting files\<close>

text \<open>\<^verbatim>\<open>_add_file\<close> (lines 124 to 128).\<close>

definition add_file :: "path \<Rightarrow> manager_state \<Rightarrow> manager_state" where
  "add_file abs_path st =
     (let st1 = emit (''Adding new file '' @ abs_path @ '' to context'') st
      in st1\<lparr>context_files := insert abs_path (context_files st1)\<rparr>)"

text \<open>\<^verbatim>\<open>_delete_file\<close> (lines 130 to 134); \<^verbatim>\<open>unlink\<close> raises on a missing file.\<close>

definition delete_file :: "path \<Rightarrow> manager_state \<Rightarrow> error option \<times> manager_state" where
  "delete_file abs_path st =
     (let st1 = emit (''Deleting file '' @ abs_path) st;
          st2 = (if abs_path \<in> context_files st1
                 then st1\<lparr>context_files := context_files st1 - {abs_path}\<rparr>
                 else st1)
      in (case disk st2 abs_path of
            None \<Rightarrow> (Some FileNotFoundError, st2)
          | Some text \<Rightarrow> (None, st2\<lparr>disk := (disk st2)(abs_path := None)\<rparr>)))"

text \<open>\<^verbatim>\<open>_handle_delete\<close> (lines 136 to 147).\<close>

definition handle_delete :: "CodeChange \<Rightarrow> manager_state \<Rightarrow> error option \<times> manager_state" where
  "handle_delete delete_change st =
     (let abs_path = change_file delete_change in
      if disk st abs_path = None then
        (None, emit (''Path '' @ abs_path @ '' non-existent on delete'') st)
      else
        (let st1 = emit (''Are you sure you want to delete '' @ change_file delete_change @ ''?'') st;
             (yes, st2) = ask_yes_no False st1
         in if yes then
              delete_file abs_path (emit (''Deleting '' @ change_file delete_change @ ''...'') st2)
            else (None, emit (''Not deleting '' @ change_file delete_change) st2)))"

subsection \<open>\<^verbatim>\<open>_get_new_code_lines\<close>\<close>

text \<open>Lines 157 to 164: the sort and the three resolver passes.\<close>

definition resolve_changes ::
  "collaborators \<Rightarrow> CodeChange list \<Rightarrow> manager_state \<Rightarrow> CodeChange list \<times> manager_state" where
  "resolve_changes env changes st =
     (let sorted_changes = sorted_reverse env changes;
          (changes1, st1) = resolve_insertion_conflicts env sorted_changes st;
          (changes2, st2) = resolve_non_insertion_conflicts env changes1 st1
      in resolve_insertion_conflicts env changes2 st2)"

text \<open>
  Lines 168 to 178: the cached lines are compared with a fresh read of the file. The
  result is the buffer to work on, or \<open>None\<close> when the file has changed and the user does
  not confirm.
\<close>

definition staleness_check ::
  "path \<Rightarrow> manager_state \<Rightarrow> (error + string list option) \<times> manager_state" where
  "staleness_check rel_path st =
     (case file_lines st rel_path of
        None \<Rightarrow> (Inl KeyError, st)
      | Some new_code_lines \<Rightarrow>
          (case read_file st rel_path of
             Inl e \<Rightarrow> (Inl e, st)
           | Inr fresh_lines \<Rightarrow>
               if new_code_lines \<noteq> fresh_lines then
                 (let st1 = emit (''File '' @ [CHR 0x27] @ rel_path @ [CHR 0x27]
                                    @ '' changed while generating changes'') st;
                      st2 = emit (''File '' @ [CHR 0x27] @ rel_path @ [CHR 0x27]
                                    @ '' changed while generating; current file changes''
                                    @ '' will be erased. Continue?'') st1;
                      (yes, st3) = ask_yes_no False st2
                  in if \<not> yes then
                       (Inr None,
                        emit (''Not applying changes to file '' @ rel_path @ ''.'') st3)
                     else (Inr (Some new_code_lines), st3))
               else (Inr (Some new_code_lines), st)))"

text \<open>The loop of lines 187 to 191, with \<^verbatim>\<open>min_changed_line\<close> and the buffer as state.\<close>

fun apply_changes ::
  "collaborators \<Rightarrow> CodeChange list \<Rightarrow> rat \<Rightarrow> string list \<Rightarrow> error + string list" where
  "apply_changes env [] min_changed_line new_code_lines = Inr new_code_lines"
| "apply_changes env (change # rest) min_changed_line new_code_lines =
     (if last_changed_line change \<ge> min_changed_line then
        Inl (MentatError (''Change line number overlap in file '' @ change_file change))
      else apply_changes env rest (first_changed_line change)
             (apply_change env change new_code_lines))"

text \<open>Lines 180 to 192: the padding past the end of the file, then the loop.\<close>

definition patch_buffer ::
  "collaborators \<Rightarrow> CodeChange list \<Rightarrow> string list \<Rightarrow> error + string list" where
  "patch_buffer env changes new_code_lines =
     (case changes of
        [] \<Rightarrow> Inl IndexError
      | first_change # _ \<Rightarrow>
          (let last_line = int (length new_code_lines) + 1;
               largest_changed_line = \<lceil>last_changed_line first_change\<rceil>;
               padded = (if largest_changed_line > last_line
                         then new_code_lines
                                @ replicate (nat (largest_changed_line - last_line)) []
                         else new_code_lines)
           in apply_changes env changes (of_int largest_changed_line + 1) padded))"

text \<open>
  The whole of \<^verbatim>\<open>_get_new_code_lines\<close> (lines 149 to 192). The result \<open>Inr None\<close> is the
  \<^verbatim>\<open>None\<close> of line 178.
\<close>

definition get_new_code_lines ::
  "collaborators \<Rightarrow> path \<Rightarrow> CodeChange list \<Rightarrow> manager_state
     \<Rightarrow> (error + string list option) \<times> manager_state" where
  "get_new_code_lines env rel_path changes st =
     (if changes = [] then (Inr (Some []), st)
      else if length (remdups (map change_file changes)) > 1 then
        (Inl (Exception ''All changes passed in must be for the same file''), st)
      else
        (let (resolved, st1) = resolve_changes env changes st in
         if resolved = [] then (Inr (Some []), st1)
         else
           (case staleness_check rel_path st1 of
              (Inl e, st2) \<Rightarrow> (Inl e, st2)
            | (Inr None, st2) \<Rightarrow> (Inr None, st2)
            | (Inr (Some new_code_lines), st2) \<Rightarrow>
                (case patch_buffer env resolved new_code_lines of
                   Inl e \<Rightarrow> (Inl e, st2)
                 | Inr lines \<Rightarrow> (Inr (Some lines), st2)))))"

subsection \<open>\<^verbatim>\<open>write_changes_to_files\<close>\<close>

text \<open>
  \<^verbatim>\<open>file_changes\<close> is a \<^verbatim>\<open>defaultdict(list)\<close>: keys stay in the order of their first
  use, and reading a missing key adds it with the empty list.
\<close>

type_synonym file_changes = "(path \<times> CodeChange list) list"

definition changes_for :: "file_changes \<Rightarrow> path \<Rightarrow> CodeChange list" where
  "changes_for fc key = (case map_of fc key of None \<Rightarrow> [] | Some changes \<Rightarrow> changes)"

definition touch :: "file_changes \<Rightarrow> path \<Rightarrow> file_changes" where
  "touch fc key = (case map_of fc key of None \<Rightarrow> fc @ [(key, [])] | Some changes \<Rightarrow> fc)"

text \<open>One pass of the first loop (lines 196 to 220).\<close>

definition dispatch_change ::
  "CodeChange \<Rightarrow> file_changes \<Rightarrow> manager_state
     \<Rightarrow> error option \<times> file_changes \<times> manager_state" where
  "dispatch_change code_change fc st =
     (let rel_path = change_file code_change; abs_path = change_file code_change in
      case action code_change of
        CreateFile \<Rightarrow>
          (let st1 = emit (''Creating new file '' @ rel_path) st;
               st2 = add_file abs_path st1
           in (None, fc, write_file abs_path (join_lines (code_lines code_change)) st2))
      | DeleteFile \<Rightarrow>
          (let (e, st1) = handle_delete code_change st in (e, fc, st1))
      | RenameFile \<Rightarrow>
          (let abs_new_path = name code_change;
               st1 = add_file abs_new_path st
           in case file_lines st1 rel_path of
                None \<Rightarrow> (Some KeyError, fc, st1)
              | Some lines \<Rightarrow>
                  (let st2 = write_file abs_new_path (join_lines lines) st1 in
                   case delete_file abs_path st2 of
                     (Some e, st3) \<Rightarrow> (Some e, fc, st3)
                   | (None, st3) \<Rightarrow>
                       (let fc1 = touch (touch fc (name code_change)) rel_path;
                            fc2 = AList.update (name code_change)
                                    (changes_for fc1 (name code_change) @ changes_for fc1 rel_path)
                                    fc1;
                            fc3 = AList.update rel_path [] fc2
                        in case read_file st3 (name code_change) of
                             Inl e \<Rightarrow> (Some e, fc3, st3)
                           | Inr lines' \<Rightarrow>
                               (None, fc3,
                                st3\<lparr>file_lines :=
                                      (file_lines st3)(name code_change \<mapsto> lines')\<rparr>))))
      | _ \<Rightarrow>
          (None, AList.update rel_path (changes_for fc rel_path @ [code_change]) fc, st))"

fun dispatch_all ::
  "CodeChange list \<Rightarrow> file_changes \<Rightarrow> manager_state
     \<Rightarrow> error option \<times> file_changes \<times> manager_state" where
  "dispatch_all [] fc st = (None, fc, st)"
| "dispatch_all (code_change # rest) fc st =
     (case dispatch_change code_change fc st of
        (Some e, fc1, st1) \<Rightarrow> (Some e, fc1, st1)
      | (None, fc1, st1) \<Rightarrow> dispatch_all rest fc1 st1)"

text \<open>
  One pass of the second loop (lines 222 to 231). The test \<^verbatim>\<open>if new_code_lines\<close> fails on
  \<^verbatim>\<open>None\<close> and on the empty list.
\<close>

definition write_file_changes ::
  "collaborators \<Rightarrow> path \<Rightarrow> CodeChange list \<Rightarrow> manager_state
     \<Rightarrow> error option \<times> manager_state" where
  "write_file_changes env rel_path changes st =
     (case get_new_code_lines env rel_path changes st of
        (Inl e, st1) \<Rightarrow> (Some e, st1)
      | (Inr None, st1) \<Rightarrow> (None, st1)
      | (Inr (Some []), st1) \<Rightarrow> (None, st1)
      | (Inr (Some (l # ls)), st1) \<Rightarrow>
          if rel_path \<notin> context_files st1 then
            (Some (MentatError (''Attempted to edit file '' @ rel_path @ '' not in context'')),
             st1)
          else (None, write_file rel_path (join_lines (l # ls)) st1))"

fun write_all ::
  "collaborators \<Rightarrow> file_changes \<Rightarrow> manager_state \<Rightarrow> error option \<times> manager_state" where
  "write_all env [] st = (None, st)"
| "write_all env ((rel_path, changes) # rest) st =
     (case write_file_changes env rel_path changes st of
        (Some e, st1) \<Rightarrow> (Some e, st1)
      | (None, st1) \<Rightarrow> write_all env rest st1)"

definition write_changes_to_files ::
  "collaborators \<Rightarrow> CodeChange list \<Rightarrow> manager_state \<Rightarrow> error option \<times> manager_state" where
  "write_changes_to_files env code_changes st =
     (case dispatch_all code_changes [] st of
        (Some e, fc, st1) \<Rightarrow> (Some e, st1)
      | (None, fc, st1) \<Rightarrow> write_all env fc st1)"

section \<open>Notions used to state the properties\<close>

subsection \<open>Lines of a diff\<close>




text \<open>
  The lines that never reach a message: file markers, lines starting with two slashes,
  context lines and the marker of a missing final newline (it starts with a backslash).
\<close>

definition ignored_line :: "string \<Rightarrow> bool" where
  "ignored_line l = (startswith l ''---'' \<or> startswith l ''+++'' \<or> startswith l ''//'' \<or>
      startswith l '' '' \<or> startswith l [CHR 0x5C])"

definition message_line_ok :: "string \<Rightarrow> bool" where
  "message_line_ok l = ((startswith l ''+'' \<or> startswith l ''-'') \<and> \<not> ignored_line l)"

subsection \<open>The woven listing in closed form\<close>








subsection \<open>Concrete inputs\<close>


definition scenario_D_diff :: string where
  "scenario_D_diff = ''diff --git a/multifile_calculator/operations.py b/multifile_calculator/operations.py\<newline>index 2f4a1c3..9b7e5d0 100644\<newline>--- a/multifile_calculator/operations.py\<newline>+++ b/multifile_calculator/operations.py\<newline>@@ -1,3 +1,3 @@\<newline>-    return a / b\<newline>+    return commit3\<newline>''"

definition zero_context_diff :: string where
  "zero_context_diff = ''diff --git a/multifile_calculator/operations.py b/multifile_calculator/operations.py\<newline>index 2f4a1c3..9b7e5d0 100644\<newline>--- a/multifile_calculator/operations.py\<newline>+++ b/multifile_calculator/operations.py\<newline>@@ -14 +14 @@ def divide_numbers(a, b):\<newline>-    return a / b\<newline>+    return commit3\<newline>''"

definition scenario_D_listing :: "string list" where
  "scenario_D_listing =
     [''multifile_calculator/operations.py'',
      ''1:def add_numbers(a, b):'',
      ''2:    return a + b'',
      ''3:'',
      ''4:'',
      ''5:def subtract_numbers(a, b):'',
      ''6:    return a - b'',
      ''7:'',
      ''8:'',
      ''9:def multiply_numbers(a, b):'',
      ''10:    return a * b'',
      ''11:'',
      ''12:'',
      ''13:def divide_numbers(a, b):'',
      ''14:    return a / b'']"

definition last_line_hunk :: DiffAnnotation where
  "last_line_hunk = \<lparr>start = 14, message = [''-    return a / b'', ''+    return commit3'']\<rparr>"

subsection \<open>The overlap guard\<close>

text \<open>
  The value of \<^verbatim>\<open>min_changed_line\<close> when the loop reaches the change at index \<open>i\<close>: one
  past the highest boundary for the first change, afterwards the first changed line of
  the change before. The error raised by the guard names the file of the change.
\<close>

definition min_changed_line_at :: "CodeChange list \<Rightarrow> nat \<Rightarrow> rat" where
  "min_changed_line_at changes i =
     (if i = 0 then of_int \<lceil>last_changed_line (changes ! 0)\<rceil> + 1
      else first_changed_line (changes ! (i - 1)))"

definition overlap_error :: "CodeChange \<Rightarrow> error" where
  "overlap_error change = MentatError (''Change line number overlap in file '' @ change_file change)"


subsection \<open>Concrete collaborators and states\<close>

text \<open>
  Modelled from the spec: \<^verbatim>\<open>CodeChange.apply\<close> is not among the source files. The edit
  splices the code lines into the buffer at the range of the change (an insertion targets
  a boundary, a deletion supplies no lines). It serves as the collaborator of the
  concrete runs below, together with resolvers that change nothing.
\<close>

definition splice_change :: "CodeChange \<Rightarrow> string list \<Rightarrow> string list" where
  "splice_change change lines =
     take (nat \<lceil>first_changed_line change\<rceil> - 1) lines
       @ code_lines change
       @ drop (nat \<lfloor>last_changed_line change\<rfloor>) lines"

definition plain_env :: collaborators where
  "plain_env =
     \<lparr>sorted_reverse = (\<lambda>changes. changes),
      resolve_insertion_conflicts = (\<lambda>changes st. (changes, st)),
      resolve_non_insertion_conflicts = (\<lambda>changes st. (changes, st)),
      apply_change = splice_change\<rparr>"

definition replace_change :: "path \<Rightarrow> int \<Rightarrow> int \<Rightarrow> string list \<Rightarrow> CodeChange" where
  "replace_change p a b lines =
     \<lparr>action = Replace, change_file = p, first_changed_line = of_int a,
      last_changed_line = of_int b, name = [], code_lines = lines\<rparr>"

definition delete_file_change :: "path \<Rightarrow> CodeChange" where
  "delete_file_change p =
     \<lparr>action = DeleteFile, change_file = p, first_changed_line = 0,
      last_changed_line = 0, name = [], code_lines = []\<rparr>"

definition demo_state :: "string \<Rightarrow> bool list \<Rightarrow> manager_state" where
  "demo_state on_disk replies =
     \<lparr>disk = [''f.py'' \<mapsto> on_disk],
      context_files = {''f.py''},
      file_lines = [''f.py'' \<mapsto> [''a'', ''b'', ''c'']],
      answers = replies,
      console = []\<rparr>"

subsection \<open>Edits\<close>

text \<open>The changes that go through \<^verbatim>\<open>_get_new_code_lines\<close> (the last case of the first loop).\<close>

definition is_edit :: "CodeChange \<Rightarrow> bool" where
  "is_edit c = (action c = Insert \<or> action c = Replace \<or> action c = Delete)"

subsection \<open>Placed annotations and unaffected lines\<close>





definition copied :: "(string + string) list \<Rightarrow> string list" where
  "copied w = concat (map (case_sum (\<lambda>x. [x]) (\<lambda>y. [])) w)"

definition inserted :: "(string + string) list \<Rightarrow> string list" where
  "inserted w = concat (map (case_sum (\<lambda>x. []) (\<lambda>y. [y])) w)"

definition unmarked :: "(string + string) list \<Rightarrow> string list" where
  "unmarked w = map (case_sum id id) w"



section \<open>Properties of the diff pipeline\<close>

subsection \<open>The parser\<close>






lemma startswith_plus_minus:
  "startswith l ''+'' \<or> startswith l ''-'' \<Longrightarrow>
   \<not> startswith l ''//'' \<and> \<not> startswith l '' '' \<and> \<not> startswith l [CHR 0x5C]"
  by (cases l) auto

lemma parse_lines_messages:
  "parse_lines ls anns act = Inr (anns', act') \<Longrightarrow>
   (\<forall>a \<in> set (flush anns act). \<forall>l \<in> set (message a). message_line_ok l) \<Longrightarrow>
   (\<forall>a \<in> set (flush anns' act'). \<forall>l \<in> set (message a). message_line_ok l)"
proof (induction ls arbitrary: anns act)
  case Nil
  then show ?case by simp
next
  case (Cons line rest)
  show ?case
  proof (cases "startswith line ''---'' \<or> startswith line ''+++'' \<or> startswith line ''//''")
    case True
    with Cons show ?thesis by simp
  next
    case skip: False
    show ?thesis
    proof (cases "startswith line ''@@''")
      case True
      with skip Cons.prems(1) obtain n where
        run: "parse_lines rest (flush anns act) (Some \<lparr>start = n, message = []\<rparr>) = Inr (anns', act')"
        by (auto split: sum.splits)
      have "\<forall>a \<in> set (flush (flush anns act) (Some \<lparr>start = n, message = []\<rparr>)).
              \<forall>l \<in> set (message a). message_line_ok l"
        using Cons.prems(2) by (auto simp: flush_def)
      from Cons.IH [OF run this] show ?thesis .
    next
      case nohdr: False
      show ?thesis
      proof (cases "startswith line ''+'' \<or> startswith line ''-''")
        case True
        with skip nohdr Cons.prems(1) obtain a where
          act: "act = Some a" and
          run: "parse_lines rest anns (Some (a\<lparr>message := message a @ [line]\<rparr>)) = Inr (anns', act')"
          by (auto split: option.splits)
        have "message_line_ok line"
          using True skip startswith_plus_minus [OF True]
          by (simp add: message_line_ok_def ignored_line_def)
        then have "\<forall>b \<in> set (flush anns (Some (a\<lparr>message := message a @ [line]\<rparr>))).
              \<forall>l \<in> set (message b). message_line_ok l"
          using Cons.prems(2) act by (auto simp: flush_def)
        from Cons.IH [OF run this] show ?thesis .
      next
        case False
        with skip nohdr Cons show ?thesis by simp
      qed
    qed
  qed
qed

lemma parse_diff_messages:
  assumes "parse_diff diff = Inr annotations"
    and "a \<in> set annotations" and "l \<in> set (message a)"
  shows "message_line_ok l"
proof -
  from assms(1) obtain anns act where
    run: "parse_lines (drop 4 (splitlines diff)) [] None = Inr (anns, act)" and
    res: "annotations = sort_key start (flush anns act)"
    by (auto simp: parse_diff_def split: sum.splits)
  have "\<forall>a \<in> set (flush [] None). \<forall>l \<in> set (message a). message_line_ok l"
    by (simp add: flush_def)
  from parse_lines_messages [OF run this] assms(2,3) res show ?thesis by simp
qed

lemma ignored_line_skip:
  "ignored_line l \<Longrightarrow> parse_lines (l # rest) anns act = parse_lines rest anns act"
  by (cases l) (auto simp: ignored_line_def)

lemma parse_lines_ignored:
  "parse_lines (filter (\<lambda>l. \<not> ignored_line l) ls) anns act = parse_lines ls anns act"
proof (induction ls arbitrary: anns act)
  case Nil
  show ?case by simp
next
  case (Cons line rest)
  show ?case
  proof (cases "ignored_line line")
    case True
    then show ?thesis using Cons.IH by (simp add: ignored_line_skip del: parse_lines.simps)
  next
    case False
    then show ?thesis using Cons.IH by (auto split: sum.splits option.splits)
  qed
qed

lemma parse_zero_context_diff:
  "parse_diff zero_context_diff = Inr [last_line_hunk]"
  by code_simp




text \<open>
  Claim C9. When the parser accepts a diff, every line of every message starts with
  \<^verbatim>\<open>+\<close> or \<^verbatim>\<open>-\<close>, and none is a file marker, a line starting with two slashes, a context
  line or the marker of a missing final newline. Such lines are ignored: dropping them
  from the input does not change what the loop computes.
\<close>

theorem parse_diff_message_lines:
  assumes "parse_diff diff = Inr annotations"
    and "a \<in> set annotations" and "l \<in> set (message a)"
  shows "(startswith l ''+'' \<or> startswith l ''-'')
    \<and> \<not> startswith l ''---'' \<and> \<not> startswith l ''+++'' \<and> \<not> startswith l ''//''
    \<and> \<not> startswith l '' '' \<and> \<not> startswith l [CHR 0x5C]
    \<and> parse_lines (filter (\<lambda>l. \<not> ignored_line l) (drop 4 (splitlines diff))) [] None
        = parse_lines (drop 4 (splitlines diff)) [] None"
  using parse_diff_messages [OF assms] parse_lines_ignored
  by (simp add: message_line_ok_def ignored_line_def)

theorem parse_diff_message_lines_witness:
  "parse_diff zero_context_diff = Inr [last_line_hunk]
   \<and> last_line_hunk \<in> set [last_line_hunk]
   \<and> ''+    return commit3'' \<in> set (message last_line_hunk)
   \<and> startswith ''+    return commit3'' ''+''
   \<and> \<not> startswith ''+    return commit3'' ''+++''"
  using parse_diff_message_lines [OF parse_zero_context_diff,
      of last_line_hunk "''+    return commit3''"]
  by (simp add: parse_zero_context_diff last_line_hunk_def)

subsection \<open>The weaver\<close>

text \<open>
  Claim C10. Weaving a listing with no annotation returns the listing, element for
  element.
\<close>

theorem annotate_file_message_no_annotations:
  "annotate_file_message code_message [] = Inr code_message"
  by (simp add: annotate_file_message_def py_slice_from_def slice_bound_def)

theorem annotate_file_message_no_annotations_witness:
  "annotate_file_message scenario_D_listing [] = Inr scenario_D_listing"
  using annotate_file_message_no_annotations [of scenario_D_listing] by simp









subsection \<open>Scenario D\<close>

lemma str_int_14: "str_int 14 = ''14''"
  by code_simp

text \<open>
  Claim C6 as it is written fails. With the hunk header \<^verbatim>\<open>@@ -1,3 +1,3 @@\<close> the annotation
  starts at 1, so both lines are tagged \<^verbatim>\<open>1:\<close> and stand right after the path line; the
  first numbered entry of the listing is the one that goes, not the last.
\<close>

theorem scenario_D_counterexample:
  "DiffContext_annotate_file_message [''multifile_calculator/operations.py'']
       scenario_D_diff scenario_D_listing
     = Inr (take 1 scenario_D_listing
            @ [''1:-    return a / b'', ''1:+    return commit3'']
            @ drop 2 scenario_D_listing)
   \<and> DiffContext_annotate_file_message [''multifile_calculator/operations.py'']
       scenario_D_diff scenario_D_listing
     \<noteq> Inr (butlast scenario_D_listing
            @ [''14:-    return a / b'', ''14:+    return commit3''])"
  by code_simp

text \<open>
  Claim C6, as amended. With the hunk header \<^verbatim>\<open>@@ -14 +14 @@\<close> (the diff has no context
  lines, so the header addresses the changed line) and a listing of the path line and 14
  numbered entries, the removed line and the added line are both tagged \<^verbatim>\<open>14:\<close>: the output
  is the listing without its last entry, followed by the two tagged lines.
\<close>

theorem scenario_D_zero_context:
  assumes "length listing = 15"
  shows "DiffContext_annotate_file_message [''multifile_calculator/operations.py'']
           zero_context_diff listing
         = Inr (butlast listing @ [''14:-    return a / b'', ''14:+    return commit3''])"
proof -
  have "butlast listing = take 14 listing"
    using assms by (simp add: butlast_conv_take)
  moreover have "listing \<noteq> []" using assms by auto
  ultimately show ?thesis
    using assms
    by (simp add: DiffContext_annotate_file_message_def parse_zero_context_diff
        last_line_hunk_def annotate_file_message_def py_slice_def slice_bound_def str_int_14)
qed

theorem scenario_D_zero_context_witness:
  "length scenario_D_listing = 15
   \<and> DiffContext_annotate_file_message [''multifile_calculator/operations.py'']
       zero_context_diff scenario_D_listing
     = Inr (butlast scenario_D_listing
            @ [''14:-    return a / b'', ''14:+    return commit3''])"
proof -
  have 1: "length scenario_D_listing = 15"
    by (simp add: scenario_D_listing_def)
  from scenario_D_zero_context [OF 1] 1 show ?thesis by simp
qed

section \<open>Properties of the change applicator\<close>

subsection \<open>Deleting a file\<close>

lemma emit_fields [simp]:
  "disk (emit text st) = disk st"
  "context_files (emit text st) = context_files st"
  "file_lines (emit text st) = file_lines st"
  "answers (emit text st) = answers st"
  by (simp_all add: emit_def)

lemma ask_yes_no_emit:
  "ask_yes_no d (emit text st) = (fst (ask_yes_no d st), emit text (snd (ask_yes_no d st)))"
  by (cases "answers st") (simp_all add: ask_yes_no_def emit_def)

lemma ask_yes_no_fields [simp]:
  "disk (snd (ask_yes_no d st)) = disk st"
  "context_files (snd (ask_yes_no d st)) = context_files st"
  "file_lines (snd (ask_yes_no d st)) = file_lines st"
  by (cases "answers st"; simp add: ask_yes_no_def)+

lemma ask_yes_no_no_reply: "answers st = [] \<Longrightarrow> ask_yes_no d st = (d, st)"
  by (simp add: ask_yes_no_def)

lemma handle_delete_missing:
  "disk st (change_file c) = None \<Longrightarrow>
   handle_delete c st =
     (None, st\<lparr>console := console st @ [''Path '' @ change_file c @ '' non-existent on delete'']\<rparr>)"
  by (simp add: handle_delete_def emit_def)

lemma handle_delete_present:
  assumes "disk st (change_file c) \<noteq> None"
  shows "handle_delete c st =
     (if fst (ask_yes_no False st) then
        delete_file (change_file c)
          (emit (''Deleting '' @ change_file c @ ''...'')
             (emit (''Are you sure you want to delete '' @ change_file c @ ''?'')
                (snd (ask_yes_no False st))))
      else (None, emit (''Not deleting '' @ change_file c)
             (emit (''Are you sure you want to delete '' @ change_file c @ ''?'')
                (snd (ask_yes_no False st)))))"
proof -
  obtain content where "disk st (change_file c) = Some content" using assms by auto
  then show ?thesis by (simp add: handle_delete_def ask_yes_no_emit Let_def)
qed

lemma delete_file_present:
  assumes "disk st p \<noteq> None"
  shows "fst (delete_file p st) = None"
    and "disk (snd (delete_file p st)) = (disk st)(p := None)"
    and "context_files (snd (delete_file p st)) = context_files st - {p}"
    and "file_lines (snd (delete_file p st)) = file_lines st"
proof -
  obtain content where t: "disk st p = Some content" using assms by auto
  show "fst (delete_file p st) = None"
    using t by (simp add: delete_file_def Let_def)
  show "disk (snd (delete_file p st)) = (disk st)(p := None)"
    using t by (simp add: delete_file_def Let_def)
  show "context_files (snd (delete_file p st)) = context_files st - {p}"
    using t by (simp add: delete_file_def Let_def)
  show "file_lines (snd (delete_file p st)) = file_lines st"
    using t by (simp add: delete_file_def Let_def)
qed


text \<open>
  Claim C8. When the target path does not exist, the handler reports it and changes
  nothing else. When it exists and the confirmation (asked with the default answer no)
  returns yes, the file is removed from disk and from the tracked files. When the
  confirmation returns no (as it does when no reply is given), the disk, the tracked files
  and the cached lines stay as they were.
\<close>

theorem handle_delete_cases:
  "(disk st (change_file c) = None \<longrightarrow>
      handle_delete c st =
        (None, st\<lparr>console := console st
                   @ [''Path '' @ change_file c @ '' non-existent on delete'']\<rparr>))
   \<and> (disk st (change_file c) \<noteq> None \<and> fst (ask_yes_no False st) \<longrightarrow>
        fst (handle_delete c st) = None
        \<and> disk (snd (handle_delete c st)) = (disk st)(change_file c := None)
        \<and> context_files (snd (handle_delete c st)) = context_files st - {change_file c})
   \<and> (disk st (change_file c) \<noteq> None \<and> \<not> fst (ask_yes_no False st) \<longrightarrow>
        fst (handle_delete c st) = None
        \<and> disk (snd (handle_delete c st)) = disk st
        \<and> context_files (snd (handle_delete c st)) = context_files st
        \<and> file_lines (snd (handle_delete c st)) = file_lines st)
   \<and> (answers st = [] \<longrightarrow> \<not> fst (ask_yes_no False st))"
proof -
  let ?asked = "emit (''Are you sure you want to delete '' @ change_file c @ ''?'')
                  (snd (ask_yes_no False st))"
  let ?deleting = "emit (''Deleting '' @ change_file c @ ''...'') ?asked"
  have 1: "handle_delete c st =
        (None, st\<lparr>console := console st
                   @ [''Path '' @ change_file c @ '' non-existent on delete'']\<rparr>)"
    if "disk st (change_file c) = None"
    using that by (rule handle_delete_missing)
  have 2: "fst (handle_delete c st) = None
        \<and> disk (snd (handle_delete c st)) = (disk st)(change_file c := None)
        \<and> context_files (snd (handle_delete c st)) = context_files st - {change_file c}"
    if present: "disk st (change_file c) \<noteq> None" and yes: "fst (ask_yes_no False st)"
  proof -
    have run: "handle_delete c st = delete_file (change_file c) ?deleting"
      using handle_delete_present [OF present] yes by simp
    have "disk ?deleting (change_file c) \<noteq> None" using present by simp
    from delete_file_present(1-3) [OF this] show ?thesis
      unfolding run by simp
  qed
  have 3: "fst (handle_delete c st) = None
        \<and> disk (snd (handle_delete c st)) = disk st
        \<and> context_files (snd (handle_delete c st)) = context_files st
        \<and> file_lines (snd (handle_delete c st)) = file_lines st"
    if present: "disk st (change_file c) \<noteq> None" and no: "\<not> fst (ask_yes_no False st)"
  proof -
    have run: "handle_delete c st = (None, emit (''Not deleting '' @ change_file c) ?asked)"
      using handle_delete_present [OF present] no by simp
    show ?thesis unfolding run by simp
  qed
  have 4: "\<not> fst (ask_yes_no False st)" if "answers st = []"
    using that by (simp add: ask_yes_no_no_reply)
  from 1 2 3 4 show ?thesis by blast
qed

theorem handle_delete_cases_witness:
  "disk (demo_state ''a'' []) ''gone.py'' = None
   \<and> handle_delete (delete_file_change ''gone.py'') (demo_state ''a'' [])
       = (None, (demo_state ''a'' [])\<lparr>console := [''Path gone.py non-existent on delete'']\<rparr>)
   \<and> disk (demo_state ''a'' [True]) ''f.py'' \<noteq> None
   \<and> fst (ask_yes_no False (demo_state ''a'' [True]))
   \<and> disk (snd (handle_delete (delete_file_change ''f.py'') (demo_state ''a'' [True]))) ''f.py''
       = None
   \<and> context_files (snd (handle_delete (delete_file_change ''f.py'') (demo_state ''a'' [True])))
       = {}
   \<and> \<not> fst (ask_yes_no False (demo_state ''a'' [False]))
   \<and> disk (snd (handle_delete (delete_file_change ''f.py'') (demo_state ''a'' [False]))) ''f.py''
       = Some ''a''
   \<and> context_files (snd (handle_delete (delete_file_change ''f.py'') (demo_state ''a'' [False])))
       = {''f.py''}
   \<and> \<not> fst (ask_yes_no False (demo_state ''a'' []))"
  using handle_delete_cases [of "demo_state ''a'' []" "delete_file_change ''gone.py''"]
    handle_delete_cases [of "demo_state ''a'' [True]" "delete_file_change ''f.py''"]
    handle_delete_cases [of "demo_state ''a'' [False]" "delete_file_change ''f.py''"]
  by (simp add: demo_state_def delete_file_change_def ask_yes_no_def)

subsection \<open>The overlap guard and the padding\<close>

lemma resolve_plain: "resolve_changes plain_env changes st = (changes, st)"
  by (simp add: resolve_changes_def plain_env_def)

lemma read_demo: "read_file (demo_state ''a\<newline>b\<newline>c'' replies) ''f.py'' = Inr [''a'', ''b'', ''c'']"
  by (simp add: read_file_def demo_state_def)

lemma fresh_demo:
  "staleness_check ''f.py'' (demo_state ''a\<newline>b\<newline>c'' replies)
     = (Inr (Some [''a'', ''b'', ''c'']), demo_state ''a\<newline>b\<newline>c'' replies)"
proof -
  have "file_lines (demo_state ''a\<newline>b\<newline>c'' replies) ''f.py'' = Some [''a'', ''b'', ''c'']"
    by (simp add: demo_state_def)
  then show ?thesis by (simp add: staleness_check_def read_demo)
qed

lemma read_stale: "read_file (demo_state ''a\<newline>b\<newline>c\<newline>d'' replies) ''f.py'' = Inr [''a'', ''b'', ''c'', ''d'']"
  by (simp add: read_file_def demo_state_def)

lemma apply_changes_overlap:
  assumes "i < length cs"
    and "(if i = 0 then m else first_changed_line (cs ! (i - 1))) \<le> last_changed_line (cs ! i)"
  shows "\<exists>j\<le>i. apply_changes env cs m buf = Inl (overlap_error (cs ! j))"
  using assms
proof (induction cs arbitrary: i m buf)
  case Nil
  then show ?case by simp
next
  case (Cons c rest)
  show ?case
  proof (cases "m \<le> last_changed_line c")
    case True
    then have "apply_changes env (c # rest) m buf = Inl (overlap_error ((c # rest) ! 0))"
      by (simp add: overlap_error_def)
    then show ?thesis by blast
  next
    case False
    then have i: "i \<noteq> 0" using Cons.prems(2) by (auto split: if_splits)
    then obtain k where k: "i = Suc k" by (cases i) auto
    have "k < length rest" using Cons.prems(1) k by simp
    moreover have "(if k = 0 then first_changed_line c else first_changed_line (rest ! (k - 1)))
        \<le> last_changed_line (rest ! k)"
      using Cons.prems(2) k by (cases k) auto
    ultimately obtain j where j: "j \<le> k"
      "apply_changes env rest (first_changed_line c) (apply_change env c buf)
         = Inl (overlap_error (rest ! j))"
      using Cons.IH by blast
    then have "apply_changes env (c # rest) m buf = Inl (overlap_error ((c # rest) ! Suc j))"
      using False by simp
    moreover have "Suc j \<le> i" using j k by simp
    ultimately show ?thesis by blast
  qed
qed

lemma patch_buffer_overlap:
  assumes "i < length cs"
    and "min_changed_line_at cs i \<le> last_changed_line (cs ! i)"
  shows "\<exists>j\<le>i. patch_buffer env cs buf = Inl (overlap_error (cs ! j))"
proof -
  obtain c rest where cs: "cs = c # rest" using assms(1) by (cases cs) auto
  let ?m = "of_int \<lceil>last_changed_line c\<rceil> + 1 :: rat"
  have c: "cs ! 0 = c" using cs by simp
  have "(if i = 0 then ?m else first_changed_line (cs ! (i - 1))) \<le> last_changed_line (cs ! i)"
    using assms(2) unfolding min_changed_line_at_def c .
  from apply_changes_overlap [OF assms(1) this]
  show ?thesis using cs by (simp add: patch_buffer_def Let_def)
qed

lemma get_new_code_lines_patch:
  assumes "changes \<noteq> []"
    and "length (remdups (map change_file changes)) \<le> 1"
    and "resolve_changes env changes st = (resolved, st1)"
    and "resolved \<noteq> []"
    and "staleness_check rel_path st1 = (Inr (Some buf), st2)"
  shows "get_new_code_lines env rel_path changes st =
           (case patch_buffer env resolved buf of
              Inl e \<Rightarrow> (Inl e, st2)
            | Inr lines \<Rightarrow> (Inr (Some lines), st2))"
  using assms by (simp add: get_new_code_lines_def)

text \<open>
  Claim C1. Let the run reach the loop: the changes are not empty and for one file, the
  resolvers return the non-empty list \<open>resolved\<close>, and the staleness check hands over the
  buffer. When the change at some index \<open>i\<close> has its last changed line at or above the value
  that \<^verbatim>\<open>min_changed_line\<close> has at its turn, \<^verbatim>\<open>_get_new_code_lines\<close> raises the overlap
  error (at that change or at an earlier one) and returns no buffer.
\<close>

theorem overlap_guard_fails:
  assumes "changes \<noteq> []"
    and "length (remdups (map change_file changes)) \<le> 1"
    and "resolve_changes env changes st = (resolved, st1)"
    and "resolved \<noteq> []"
    and "staleness_check rel_path st1 = (Inr (Some buf), st2)"
    and "i < length resolved"
    and "min_changed_line_at resolved i \<le> last_changed_line (resolved ! i)"
  shows "\<exists>j\<le>i. get_new_code_lines env rel_path changes st =
           (Inl (overlap_error (resolved ! j)), st2)"
proof -
  from patch_buffer_overlap [OF assms(6,7)] obtain j where
    "j \<le> i" "patch_buffer env resolved buf = Inl (overlap_error (resolved ! j))"
    by blast
  then show ?thesis
    using get_new_code_lines_patch [OF assms(1-5)] by auto
qed

lemma Max_hd_descending:
  assumes "sorted (rev (map f xs))" and "xs \<noteq> []"
  shows "Max (f ` set xs) = f (hd xs)"
proof -
  obtain x rest where xs: "xs = x # rest" using assms(2) by (cases xs) auto
  have "\<forall>y \<in> set rest. f y \<le> f x"
    using assms(1) xs by (auto simp: sorted_append)
  then show ?thesis
    using xs by (intro Max_eqI) auto
qed

lemma patch_buffer_padding:
  assumes "sorted (rev (map last_changed_line cs))" and "cs \<noteq> []"
    and "highest = Max (last_changed_line ` set cs)"
  shows "(\<lceil>highest\<rceil> > int (length buf) + 1 \<longrightarrow>
           patch_buffer env cs buf =
             apply_changes env cs (of_int \<lceil>highest\<rceil> + 1)
               (buf @ replicate (nat (\<lceil>highest\<rceil> - (int (length buf) + 1))) [])
           \<and> int (length (buf @ replicate (nat (\<lceil>highest\<rceil> - (int (length buf) + 1))) []))
               = \<lceil>highest\<rceil> - 1)
       \<and> (highest \<le> of_int (int (length buf) + 1) \<longrightarrow>
           patch_buffer env cs buf = apply_changes env cs (of_int \<lceil>highest\<rceil> + 1) buf)"
proof -
  obtain c rest where cs: "cs = c # rest" using assms(2) by (cases cs) auto
  have highest: "highest = last_changed_line c"
    using Max_hd_descending [OF assms(1,2)] assms(3) cs by simp
  have le: "\<lceil>highest\<rceil> \<le> int (length buf) + 1" if "highest \<le> of_int (int (length buf) + 1)"
    using that by (simp add: ceiling_le_iff)
  show ?thesis
    using le by (auto simp: patch_buffer_def Let_def cs highest)
qed


text \<open>
  Claim C7. Let the run reach the padding, with the resolved changes in descending order
  of their last changed line, so that the first one carries the highest. When the ceiling
  of the highest exceeds the length of the buffer plus one, the loop runs on the buffer
  padded with exactly that many empty lines, which brings its length to the ceiling minus
  one; when the highest does not exceed the length plus one, the loop runs on the buffer
  as it is.
\<close>

theorem tail_padding:
  assumes "changes \<noteq> []"
    and "length (remdups (map change_file changes)) \<le> 1"
    and "resolve_changes env changes st = (resolved, st1)"
    and "resolved \<noteq> []"
    and "staleness_check rel_path st1 = (Inr (Some buf), st2)"
    and "sorted (rev (map last_changed_line resolved))"
    and "highest = Max (last_changed_line ` set resolved)"
  shows "(\<lceil>highest\<rceil> > int (length buf) + 1 \<longrightarrow>
           get_new_code_lines env rel_path changes st =
             (case apply_changes env resolved (of_int \<lceil>highest\<rceil> + 1)
                     (buf @ replicate (nat (\<lceil>highest\<rceil> - (int (length buf) + 1))) []) of
                Inl e \<Rightarrow> (Inl e, st2)
              | Inr lines \<Rightarrow> (Inr (Some lines), st2))
           \<and> int (length (buf @ replicate (nat (\<lceil>highest\<rceil> - (int (length buf) + 1))) []))
               = \<lceil>highest\<rceil> - 1)
       \<and> (highest \<le> of_int (int (length buf) + 1) \<longrightarrow>
           get_new_code_lines env rel_path changes st =
             (case apply_changes env resolved (of_int \<lceil>highest\<rceil> + 1) buf of
                Inl e \<Rightarrow> (Inl e, st2)
              | Inr lines \<Rightarrow> (Inr (Some lines), st2)))"
  using patch_buffer_padding [OF assms(6) assms(4) assms(7), of buf env]
    get_new_code_lines_patch [OF assms(1-5)]
  by simp

lemma demo_changes_one_file:
  "length (remdups (map change_file [replace_change ''f.py'' a b ls])) \<le> 1"
  "length (remdups (map change_file
     [replace_change ''f.py'' a b ls, replace_change ''f.py'' a' b' ls'])) \<le> 1"
  by (simp_all add: replace_change_def)

theorem tail_padding_witness:
  "\<lceil>6 :: rat\<rceil> > int (length [''a'', ''b'', ''c'']) + 1
   \<and> get_new_code_lines plain_env ''f.py'' [replace_change ''f.py'' 6 6 [''z'']]
        (demo_state ''a\<newline>b\<newline>c'' [])
      = (Inr (Some [''a'', ''b'', ''c'', [], [], ''z'']), demo_state ''a\<newline>b\<newline>c'' [])
   \<and> (2 :: rat) \<le> of_int (int (length [''a'', ''b'', ''c'']) + 1)
   \<and> get_new_code_lines plain_env ''f.py'' [replace_change ''f.py'' 2 2 [''y'']]
        (demo_state ''a\<newline>b\<newline>c'' [])
      = (Inr (Some [''a'', ''y'', ''c'']), demo_state ''a\<newline>b\<newline>c'' [])"
proof -
  let ?st = "demo_state ''a\<newline>b\<newline>c'' []"
  have far: "(6 :: rat) = Max (last_changed_line ` set [replace_change ''f.py'' 6 6 [''z'']])"
    and near: "(2 :: rat) = Max (last_changed_line ` set [replace_change ''f.py'' 2 2 [''y'']])"
    by (simp_all add: replace_change_def)
  have 1: "get_new_code_lines plain_env ''f.py'' [replace_change ''f.py'' 6 6 [''z'']] ?st
      = (Inr (Some [''a'', ''b'', ''c'', [], [], ''z'']), ?st)"
    using tail_padding [OF _ demo_changes_one_file(1) resolve_plain _ fresh_demo _ far]
    by (simp add: plain_env_def replace_change_def splice_change_def numeral_2_eq_2)
  have 2: "get_new_code_lines plain_env ''f.py'' [replace_change ''f.py'' 2 2 [''y'']] ?st
      = (Inr (Some [''a'', ''y'', ''c'']), ?st)"
    using tail_padding [OF _ demo_changes_one_file(1) resolve_plain _ fresh_demo _ near]
    by (simp add: plain_env_def replace_change_def splice_change_def)
  from 1 2 show ?thesis by simp
qed

theorem overlap_guard_fails_witness:
  "(1 :: nat) < length [replace_change ''f.py'' 2 3 [''x''], replace_change ''f.py'' 1 2 [''y'']]
   \<and> min_changed_line_at
        [replace_change ''f.py'' 2 3 [''x''], replace_change ''f.py'' 1 2 [''y'']] 1
      \<le> last_changed_line
          ([replace_change ''f.py'' 2 3 [''x''], replace_change ''f.py'' 1 2 [''y'']] ! 1)
   \<and> get_new_code_lines plain_env ''f.py''
        [replace_change ''f.py'' 2 3 [''x''], replace_change ''f.py'' 1 2 [''y'']]
        (demo_state ''a\<newline>b\<newline>c'' [])
      = (Inl (MentatError ''Change line number overlap in file f.py''),
         demo_state ''a\<newline>b\<newline>c'' [])"
proof -
  let ?cs = "[replace_change ''f.py'' 2 3 [''x''], replace_change ''f.py'' 1 2 [''y'']]"
  let ?st = "demo_state ''a\<newline>b\<newline>c'' []"
  have len: "(1 :: nat) < length ?cs" by simp
  have guard: "min_changed_line_at ?cs 1 \<le> last_changed_line (?cs ! 1)"
    by (simp add: min_changed_line_at_def replace_change_def)
  have err: "overlap_error (?cs ! j) = MentatError ''Change line number overlap in file f.py''"
    if "j \<le> 1" for j
  proof -
    from that have "j = 0 \<or> j = 1" by auto
    then show ?thesis by (auto simp: overlap_error_def replace_change_def)
  qed
  from overlap_guard_fails [OF _ demo_changes_one_file(2) resolve_plain _ fresh_demo len guard]
  obtain j where "j \<le> 1"
    "get_new_code_lines plain_env ''f.py'' ?cs ?st = (Inl (overlap_error (?cs ! j)), ?st)"
    by auto
  then show ?thesis using err len guard by simp
qed

subsection \<open>Overlapping ranges\<close>

lemma apply_changes_below:
  assumes "apply_changes env cs m buf = Inr r"
    and "\<forall>c \<in> set cs. first_changed_line c \<le> last_changed_line c"
  shows "\<forall>c \<in> set cs. last_changed_line c < m"
  using assms
proof (induction cs arbitrary: m buf)
  case Nil
  show ?case by simp
next
  case (Cons c rest)
  from Cons.prems(1) have guard: "last_changed_line c < m"
    and run: "apply_changes env rest (first_changed_line c) (apply_change env c buf) = Inr r"
    by (auto split: if_splits)
  have "\<forall>d \<in> set rest. last_changed_line d < first_changed_line c"
    using Cons.IH [OF run] Cons.prems(2) by simp
  moreover have "first_changed_line c < m"
    using guard Cons.prems(2) by (simp add: order_le_less_trans)
  ultimately show ?case using guard by auto
qed

lemma apply_changes_disjoint:
  assumes "apply_changes env cs m buf = Inr r"
    and "\<forall>c \<in> set cs. first_changed_line c \<le> last_changed_line c"
    and "i < j" and "j < length cs"
  shows "last_changed_line (cs ! j) < first_changed_line (cs ! i)"
  using assms
proof (induction cs arbitrary: m buf i j)
  case Nil
  then show ?case by simp
next
  case (Cons c rest)
  from Cons.prems(1) have
    run: "apply_changes env rest (first_changed_line c) (apply_change env c buf) = Inr r"
    by (auto split: if_splits)
  have wf: "\<forall>d \<in> set rest. first_changed_line d \<le> last_changed_line d"
    using Cons.prems(2) by simp
  obtain j' where j': "j = Suc j'" using Cons.prems(3) by (cases j) auto
  have j'len: "j' < length rest" using Cons.prems(4) j' by simp
  show ?case
  proof (cases i)
    case 0
    have "rest ! j' \<in> set rest" using j'len by simp
    then show ?thesis
      using apply_changes_below [OF run wf] 0 j' by simp
  next
    case (Suc i')
    then have "i' < j'" using Cons.prems(3) j' by simp
    from Cons.IH [OF run wf this j'len] show ?thesis using Suc j' by simp
  qed
qed

lemma apply_changes_error:
  "apply_changes env cs m buf = Inl e \<Longrightarrow> \<exists>c \<in> set cs. e = overlap_error c"
proof (induction cs arbitrary: m buf)
  case Nil
  then show ?case by simp
next
  case (Cons c rest)
  then show ?case by (auto simp: overlap_error_def split: if_splits)
qed

text \<open>
  A consequence for ranges: when every change has its first changed line at or below its
  last one and the ranges of two changes of the list meet, the guard fires and no buffer
  is returned; the two changes are neither merged nor is one of them dropped.
\<close>

lemma overlapping_changes_rejected:
  assumes "\<forall>c \<in> set cs. first_changed_line c \<le> last_changed_line c"
    and "i < j" and "j < length cs"
    and "first_changed_line (cs ! i) \<le> last_changed_line (cs ! j)"
  shows "\<exists>c \<in> set cs. patch_buffer env cs buf = Inl (overlap_error c)"
proof -
  obtain c rest where cs: "cs = c # rest" using assms(3) by (cases cs) auto
  let ?m = "of_int \<lceil>last_changed_line c\<rceil> + 1 :: rat"
  let ?buf = "if \<lceil>last_changed_line c\<rceil> > int (length buf) + 1
       then buf @ replicate (nat (\<lceil>last_changed_line c\<rceil> - (int (length buf) + 1))) []
       else buf"
  have pb: "patch_buffer env cs buf = apply_changes env cs ?m ?buf"
    by (simp add: patch_buffer_def cs Let_def)
  show ?thesis
  proof (cases "apply_changes env cs ?m ?buf")
    case (Inl e)
    then show ?thesis using apply_changes_error [OF Inl] pb by auto
  next
    case (Inr r)
    from apply_changes_disjoint [OF Inr assms(1-3)] assms(4) show ?thesis by simp
  qed
qed

subsection \<open>A file that changed on disk\<close>

lemma staleness_declined:
  assumes "file_lines st rel_path = Some cached"
    and "read_file st rel_path = Inr fresh"
    and "cached \<noteq> fresh"
    and "\<not> fst (ask_yes_no False st)"
  shows "fst (staleness_check rel_path st) = Inr None"
    and "disk (snd (staleness_check rel_path st)) = disk st"
    and "context_files (snd (staleness_check rel_path st)) = context_files st"
    and "file_lines (snd (staleness_check rel_path st)) = file_lines st"
  using assms
  by (simp_all add: staleness_check_def ask_yes_no_emit Let_def)

lemma one_file:
  assumes "\<forall>c \<in> set changes. change_file c = rel_path"
  shows "length (remdups (map change_file changes)) \<le> 1"
proof -
  have "set (map change_file changes) \<subseteq> {rel_path}" using assms by auto
  then have "card (set (map change_file changes)) \<le> card {rel_path}"
    by (intro card_mono) simp_all
  then show ?thesis by (simp add: length_remdups_card_conv)
qed

lemma get_new_code_lines_declined:
  assumes "changes \<noteq> []"
    and "length (remdups (map change_file changes)) \<le> 1"
    and "resolve_changes env changes st = (resolved, st1)"
    and "resolved \<noteq> []"
    and "fst (staleness_check rel_path st1) = Inr None"
  shows "get_new_code_lines env rel_path changes st
           = (Inr None, snd (staleness_check rel_path st1))"
proof -
  obtain st2 where "staleness_check rel_path st1 = (Inr None, st2)"
    using assms(5) by (cases "staleness_check rel_path st1") auto
  then show ?thesis using assms(1-4) by (simp add: get_new_code_lines_def)
qed

lemma dispatch_edit:
  assumes "is_edit c"
  shows "dispatch_change c fc st =
           (None, AList.update (change_file c) (changes_for fc (change_file c) @ [c]) fc, st)"
  using assms by (cases "action c") (simp_all add: dispatch_change_def is_edit_def Let_def)

lemma dispatch_all_edits:
  assumes "\<forall>c \<in> set cs. is_edit c \<and> change_file c = p"
  shows "dispatch_all cs [(p, pre)] st = (None, [(p, pre @ cs)], st)"
  using assms
proof (induction cs arbitrary: pre)
  case Nil
  show ?case by simp
next
  case (Cons c rest)
  have "dispatch_change c [(p, pre)] st = (None, [(p, pre @ [c])], st)"
    using Cons.prems by (simp add: dispatch_edit changes_for_def)
  then show ?case using Cons.IH [of "pre @ [c]"] Cons.prems by simp
qed

lemma dispatch_all_edits_start:
  assumes "\<forall>c \<in> set cs. is_edit c \<and> change_file c = p" and "cs \<noteq> []"
  shows "dispatch_all cs [] st = (None, [(p, cs)], st)"
proof -
  obtain c rest where cs: "cs = c # rest" using assms(2) by (cases cs) auto
  have "dispatch_change c [] st = (None, [(p, [c])], st)"
    using assms(1) cs by (simp add: dispatch_edit changes_for_def)
  then show ?thesis
    using dispatch_all_edits [of rest p "[c]" st] assms(1) cs by simp
qed

lemma write_changes_one_file:
  assumes "\<forall>c \<in> set cs. is_edit c \<and> change_file c = p" and "cs \<noteq> []"
  shows "write_changes_to_files env cs st = write_file_changes env p cs st"
proof -
  obtain e st' where r: "write_file_changes env p cs st = (e, st')"
    by (cases "write_file_changes env p cs st")
  show ?thesis
    using dispatch_all_edits_start [OF assms] r
    by (cases e) (simp_all add: write_changes_to_files_def)
qed

text \<open>
  Claim C2. Take a batch of edits (insert, replace, delete) for one file, for which the
  resolvers return a non-empty list. When at that moment the cached lines differ from a
  fresh read of the file and the confirmation is declined, \<^verbatim>\<open>_get_new_code_lines\<close> returns
  \<^verbatim>\<open>None\<close>, and neither it nor the second loop of \<^verbatim>\<open>write_changes_to_files\<close> writes: the
  disk is as the resolvers left it. So the file is written only when the confirmation
  answers yes.
\<close>

theorem stale_file_untouched:
  assumes "changes \<noteq> []"
    and "\<forall>c \<in> set changes. is_edit c \<and> change_file c = rel_path"
    and "resolve_changes env changes st = (resolved, st1)"
    and "resolved \<noteq> []"
    and "file_lines st1 rel_path = Some cached"
    and "read_file st1 rel_path = Inr fresh"
    and "cached \<noteq> fresh"
    and "\<not> fst (ask_yes_no False st1)"
  shows "fst (get_new_code_lines env rel_path changes st) = Inr None
    \<and> disk (snd (get_new_code_lines env rel_path changes st)) = disk st1
    \<and> write_file_changes env rel_path changes st
        = (None, snd (get_new_code_lines env rel_path changes st))
    \<and> fst (write_changes_to_files env changes st) = None
    \<and> disk (snd (write_changes_to_files env changes st)) = disk st1"
proof -
  have one: "length (remdups (map change_file changes)) \<le> 1"
    using one_file [of changes rel_path] assms(2) by simp
  note declined = staleness_declined [OF assms(5-8)]
  have run: "get_new_code_lines env rel_path changes st
      = (Inr None, snd (staleness_check rel_path st1))"
    by (rule get_new_code_lines_declined [OF assms(1) one assms(3,4) declined(1)])
  have step: "write_file_changes env rel_path changes st
      = (None, snd (staleness_check rel_path st1))"
    by (simp add: write_file_changes_def run)
  have all: "write_changes_to_files env changes st
      = (None, snd (staleness_check rel_path st1))"
    using write_changes_one_file [OF assms(2,1)] step by simp
  show ?thesis by (simp add: run step all declined(2))
qed

theorem stale_file_untouched_witness:
  "\<not> fst (ask_yes_no False (demo_state ''a\<newline>b\<newline>c\<newline>d'' [False]))
   \<and> [''a'', ''b'', ''c''] \<noteq> [''a'', ''b'', ''c'', ''d'']
   \<and> fst (get_new_code_lines plain_env ''f.py'' [replace_change ''f.py'' 2 2 [''y'']]
         (demo_state ''a\<newline>b\<newline>c\<newline>d'' [False])) = Inr None
   \<and> fst (write_changes_to_files plain_env [replace_change ''f.py'' 2 2 [''y'']]
         (demo_state ''a\<newline>b\<newline>c\<newline>d'' [False])) = None
   \<and> disk (snd (write_changes_to_files plain_env [replace_change ''f.py'' 2 2 [''y'']]
         (demo_state ''a\<newline>b\<newline>c\<newline>d'' [False]))) ''f.py'' = Some ''a\<newline>b\<newline>c\<newline>d''"
proof -
  let ?st = "demo_state ''a\<newline>b\<newline>c\<newline>d'' [False]"
  have edits: "\<forall>c \<in> set [replace_change ''f.py'' 2 2 [''y'']]. is_edit c \<and> change_file c = ''f.py''"
    by (simp add: is_edit_def replace_change_def)
  have cached: "file_lines ?st ''f.py'' = Some [''a'', ''b'', ''c'']"
    by (simp add: demo_state_def)
  have no: "\<not> fst (ask_yes_no False ?st)"
    by (simp add: ask_yes_no_def demo_state_def)
  have differ: "[''a'', ''b'', ''c''] \<noteq> [''a'', ''b'', ''c'', ''d'']" by simp
  have on_disk: "disk ?st ''f.py'' = Some ''a\<newline>b\<newline>c\<newline>d''"
    by (simp add: demo_state_def)
  from stale_file_untouched [OF _ edits resolve_plain _ cached read_stale differ no]
  show ?thesis using no on_disk by simp
qed

section \<open>Parse followed by weave\<close>

lemma copied_append [simp]: "copied (u @ v) = copied u @ copied v"
  by (simp add: copied_def)
lemma inserted_append [simp]: "inserted (u @ v) = inserted u @ inserted v"
  by (simp add: inserted_def)
lemma unmarked_append [simp]: "unmarked (u @ v) = unmarked u @ unmarked v"
  by (simp add: unmarked_def)
lemma copied_Inl [simp]: "copied (map Inl xs) = xs"
  by (induction xs) (simp_all add: copied_def)
lemma copied_Inr [simp]: "copied (map Inr xs) = []"
  by (induction xs) (simp_all add: copied_def)
lemma inserted_Inl [simp]: "inserted (map Inl xs) = []"
  by (induction xs) (simp_all add: inserted_def)
lemma inserted_Inr [simp]: "inserted (map Inr xs) = xs"
  by (induction xs) (simp_all add: inserted_def)
lemma unmarked_Inl [simp]: "unmarked (map Inl xs) = xs"
  by (induction xs) (simp_all add: unmarked_def)
lemma unmarked_Inr [simp]: "unmarked (map Inr xs) = xs"
  by (induction xs) (simp_all add: unmarked_def)





















end
